theory Spec2Isabelle
  imports Main "HOL-Library.Word" "HOL-Library.Signed_Division" "HOL-Library.Char_ord"
begin

section \<open>Entries\<close>

text \<open>
  Modelled from the spec: the entry types live in \<^verbatim>\<open>loom/entries/EntryType.h\<close> and
  \<^verbatim>\<open>loom/entries/Entry.h\<close>, which the two translation units include but which are not
  among the sources. The tags are the ones the spec lists (every other tag is
  \<open>USER_DEFINED\<close>), the fields are the ones it gives for the three shapes. The fields
  \<^verbatim>\<open>id\<close> and \<^verbatim>\<open>type\<close> are written \<open>entry_id\<close> and \<open>entry_type\<close>.
\<close>

datatype EntryType =
    STACK_FRAME
  | TRACE_START
  | TRACE_END
  | TRACE_ABORT
  | TRACE_TIMEOUT
  | TRACE_BACKWARDS
  | TRACE_ANNOTATION
  | USER_DEFINED nat

record StandardEntry =
  entry_id :: "32 word"
  entry_type :: EntryType
  timestamp :: "64 word"
  tid :: "32 word"
  callid :: "32 word"
  matchid :: "32 word"
  extra :: "64 word"

record FramesEntry = StandardEntry +
  frames :: "64 word list"

record BytesEntry = StandardEntry +
  arg1 :: "32 word"
  bytes :: "8 word list"

text \<open>The argument of the three overloads of \<^verbatim>\<open>EntryVisitor::visit\<close>.\<close>

datatype Entry =
    Standard StandardEntry
  | Frames FramesEntry
  | Bytes BytesEntry


section \<open>Logger.h: the entry id allocator\<close>

text \<open>
  \<^verbatim>\<open>Logger\<close> holds the atomic counter \<^verbatim>\<open>entryID_\<close> (an \<^verbatim>\<open>int32_t\<close>, here a 32-bit word:
  \<^verbatim>\<open>fetch_add\<close> on an atomic wraps around) and the packet logger \<^verbatim>\<open>logger_\<close>, of which only
  the payloads handed to it are kept, in order. Isabelle admits no name that ends in an
  underscore, so the members are written without it.
\<close>

record 'p Logger =
  entryID :: "32 word"
  logger :: "'p list"

text \<open>
  \<^verbatim>\<open>nextID(step)\<close>: the do-while loop around \<^verbatim>\<open>entryID_.fetch_add(step)\<close>. The function takes
  the counter and returns the id together with the counter the loop leaves behind; a loop
  that never ends is \<open>None\<close>. The \<^verbatim>\<open>uint16_t\<close> step is widened to 32 bits by the call.
\<close>

partial_function (option) nextID :: "16 word \<Rightarrow> 32 word \<Rightarrow> (32 word \<times> 32 word) option" where
  "nextID step entryID0 =
     (let id = entryID0; entryID1 = entryID0 + ucast step
      in if id = -1 \<or> id = 0 then nextID step entryID1 else Some (id, entryID1))"

text \<open>
  \<^verbatim>\<open>Logger::write<T>(entry, id_step)\<close>. The entry type \<open>T\<close> is a template parameter: the
  assignment \<^verbatim>\<open>entry.id = ...\<close> is \<open>set_id\<close>, and \<open>pack\<close> is the payload that
  \<^verbatim>\<open>T::calculateSize\<close> and \<^verbatim>\<open>T::pack\<close> produce for the packet logger.
\<close>

definition Logger_write ::
  "(32 word \<Rightarrow> 'e \<Rightarrow> 'e) \<Rightarrow> ('e \<Rightarrow> 'p) \<Rightarrow> 'e \<Rightarrow> 16 word \<Rightarrow> 'p Logger
     \<Rightarrow> (32 word \<times> 'p Logger) option" where
  "Logger_write set_id pack entry id_step L =
     (case nextID id_step (entryID L) of
        None \<Rightarrow> None
      | Some (i, c) \<Rightarrow> Some (i, \<lparr>entryID = c, logger = logger L @ [pack (set_id i entry)]\<rparr>))"

text \<open>
  A run of calls of \<^verbatim>\<open>write\<close> on one logger, one after the other: the ids they return, in
  the order of the calls, and the logger afterwards.
\<close>

fun writes ::
  "(32 word \<Rightarrow> 'e \<Rightarrow> 'e) \<Rightarrow> ('e \<Rightarrow> 'p) \<Rightarrow> ('e \<times> 16 word) list \<Rightarrow> 'p Logger
     \<Rightarrow> (32 word list \<times> 'p Logger) option" where
  "writes set_id pack [] L = Some ([], L)"
| "writes set_id pack ((entry, id_step) # calls) L =
     (case Logger_write set_id pack entry id_step L of
        None \<Rightarrow> None
      | Some (i, L1) \<Rightarrow>
          (case writes set_id pack calls L1 of
             None \<Rightarrow> None
           | Some (ids, L2) \<Rightarrow> Some (i # ids, L2)))"


section \<open>TraceLifecycleVisitor.cpp: the helpers of the anonymous namespace\<close>

datatype exn = invalid_argument | runtime_error | system_error

definition kBase64Alphabet :: string where
  "kBase64Alphabet =
     ''ABCDEFGHIJKLMNOPQRSTUVWXYZ'' @
     ''abcdefghijklmnopqrstuvwxyz'' @
     ''0123456789+/''"

definition kTraceIdStringLen :: nat where
  "kTraceIdStringLen = 11"

text \<open>
  \<^verbatim>\<open>/\<close> and \<^verbatim>\<open>%\<close> on \<^verbatim>\<open>int64_t\<close> truncate towards zero; \<open>sdiv\<close> and \<open>smod\<close> on \<open>int\<close> do.
\<close>

definition div_int64 :: "64 word \<Rightarrow> 64 word \<Rightarrow> 64 word" where
  "div_int64 a b = word_of_int (sint a sdiv sint b)"

definition mod_int64 :: "64 word \<Rightarrow> 64 word \<Rightarrow> 64 word" where
  "mod_int64 a b = word_of_int (sint a smod sint b)"

text \<open>
  The loop of \<^verbatim>\<open>getTraceID\<close>: \<open>Suc idx\<close> iterations are left, and the next one writes
  \<^verbatim>\<open>result[idx]\<close>.
\<close>

fun getTraceID_loop :: "nat \<Rightarrow> 64 word \<Rightarrow> string \<Rightarrow> string" where
  "getTraceID_loop 0 trace_id result = result"
| "getTraceID_loop (Suc idx) trace_id result =
     getTraceID_loop idx (div_int64 trace_id 64)
       (result[idx := kBase64Alphabet ! nat (sint (mod_int64 trace_id 64))])"

text \<open>
  \<^verbatim>\<open>result\<close> starts as twelve zero bytes, and \<^verbatim>\<open>std::string(result)\<close> reads it up to the first
  zero byte.
\<close>

definition getTraceID :: "64 word \<Rightarrow> exn + string" where
  "getTraceID trace_id =
     (if sint trace_id < 0 then Inl invalid_argument
      else Inr (takeWhile (\<lambda>ch. ch \<noteq> CHR 0x00)
                 (getTraceID_loop kTraceIdStringLen trace_id
                    (replicate (kTraceIdStringLen + 1) (CHR 0x00)))))"

text \<open>
  Reading a trace id string back: the value of a character is its place in the alphabet,
  and the first character is the most significant digit.
\<close>

fun index_of :: "'a \<Rightarrow> 'a list \<Rightarrow> nat" where
  "index_of c [] = 0"
| "index_of c (x # xs) = (if x = c then 0 else Suc (index_of c xs))"

definition base64_digit :: "char \<Rightarrow> int" where
  "base64_digit ch = int (index_of ch kBase64Alphabet)"

definition base64_decode :: "string \<Rightarrow> int" where
  "base64_decode s = foldl (\<lambda>acc ch. acc * 64 + base64_digit ch) 0 s"

text \<open>The \<open>n\<close> least significant base-64 digits of \<open>v\<close>, the most significant first.\<close>

fun digs :: "nat \<Rightarrow> int \<Rightarrow> int list" where
  "digs 0 v = []"
| "digs (Suc n) v = digs n (v div 64) @ [v mod 64]"

section \<open>TraceLifecycleVisitor.cpp: what the visitor takes from outside\<close>

text \<open>
  The system calls the file makes are inputs of the model: the process id, what
  \<^verbatim>\<open>localtime_r\<close> fills in (\<open>None\<close> when it returns a null pointer), and for every path what
  \<^verbatim>\<open>stat\<close> and \<^verbatim>\<open>mkdirat\<close> return (\<open>None\<close> for 0, else the \<^verbatim>\<open>errno\<close> they set). So are the two
  constants \<^verbatim>\<open>kTraceFormatVersion\<close> and \<^verbatim>\<open>kTimestampPrecision\<close>, which the class declares in
  \<^verbatim>\<open>TraceLifecycleVisitor.h\<close>, a header that is not among the sources.
\<close>

record tm =
  tm_year :: int
  tm_mon :: int
  tm_mday :: int
  tm_hour :: int
  tm_min :: int
  tm_sec :: int

datatype errno = ENOENT | EEXIST | EOTHER nat

record Env =
  getpid :: int
  localtime_r :: "tm option"
  stat :: "string \<Rightarrow> errno option"
  mkdirat :: "string \<Rightarrow> errno option"
  kTraceFormatVersion :: int
  kTimestampPrecision :: int

text \<open>
  What the visitor does to the world, in the order in which it does it: each call of
  the visitor returns the events it caused. The delegates are the four visitor classes
  the file constructs, each holding the reference it is given (the stream, named by the
  path of its file, or the delegate before it); their \<^verbatim>\<open>visit\<close> is not among the sources,
  so a call of it is an event. \<open>AbortReason\<close> has the three reasons the file names.
\<close>

datatype AbortReason = CONTROLLER_INITIATED | TIMEOUT | NEW_START

datatype EntryVisitor =
    PrintEntryVisitor string
  | DeltaEncodingVisitor EntryVisitor
  | TimestampTruncatingVisitor EntryVisitor int
  | StackTraceInvertingVisitor EntryVisitor

datatype Event =
    Mkdir string
  | OpenFile string
  | StreamWrite string string
  | DelegateVisit EntryVisitor Entry
  | DestroyDelegates "EntryVisitor list"
  | CloseFile string
  | Callback_onTraceStart "64 word" "32 word" string
  | Callback_onTraceAbort "64 word" AbortReason
  | Callback_onTraceEnd "64 word"

text \<open>\<^verbatim>\<open>operator<<\<close> for an integer writes it in decimal.\<close>

function show_nat :: "nat \<Rightarrow> string" where
  "show_nat n =
     (if n < 10 then [char_of (48 + n)]
      else show_nat (n div 10) @ [char_of (48 + n mod 10)])"
  by pat_completeness auto
termination
  by (relation "measure (\<lambda>n. n)") auto

declare show_nat.simps [simp del]

definition show_int :: "int \<Rightarrow> string" where
  "show_int i = (if i < 0 then ''-'' @ show_nat (nat (- i)) else show_nat (nat i))"

definition getTraceFilename :: "Env \<Rightarrow> string \<Rightarrow> string \<Rightarrow> exn + string" where
  "getTraceFilename env trace_prefix0 trace_id =
     (let filename = trace_prefix0 @ ''-'' @ show_int (getpid env) @ ''-''
      in case localtime_r env of
           None \<Rightarrow> Inl runtime_error
         | Some localnow \<Rightarrow>
             (let filename1 = filename
                    @ show_int (1900 + tm_year localnow) @ ''-''
                    @ show_int (1 + tm_mon localnow) @ ''-''
                    @ show_int (tm_mday localnow)
                    @ ''T''
                    @ show_int (tm_hour localnow) @ ''-''
                    @ show_int (tm_min localnow) @ ''-''
                    @ show_int (tm_sec localnow)
              in Inr (filename1 @ ''-'' @ trace_id @ ''.tmp'')))"

definition is_valid :: "char \<Rightarrow> bool" where
  "is_valid ch \<longleftrightarrow>
     (CHR ''A'' \<le> ch \<and> ch \<le> CHR ''Z'') \<or>
     (CHR ''a'' \<le> ch \<and> ch \<le> CHR ''z'') \<or>
     (CHR ''0'' \<le> ch \<and> ch \<le> CHR ''9'') \<or>
     ch = CHR ''-'' \<or> ch = CHR ''_'' \<or> ch = CHR ''.''"

fun sanitize :: "string \<Rightarrow> string" where
  "sanitize [] = []"
| "sanitize (ch # input) = (if \<not> is_valid ch then CHR ''_'' else ch) # sanitize input"

definition ensureFolder :: "Env \<Rightarrow> string \<Rightarrow> exn option \<times> Event list" where
  "ensureFolder env folder0 =
     (case stat env folder0 of
        None \<Rightarrow> (None, [])
      | Some e \<Rightarrow>
          if e \<noteq> ENOENT then (Some system_error, [])
          else (case mkdirat env folder0 of
                  None \<Rightarrow> (None, [Mkdir folder0])
                | Some e' \<Rightarrow>
                    if e' = EEXIST then (None, [])
                    else (Some system_error, [])))"


section \<open>TraceLifecycleVisitor\<close>

datatype TraceCallbacks = TraceCallbacks

text \<open>
  The members of the class, without the trailing underscore; \<^verbatim>\<open>output_\<close> is
  \<open>output_stream\<close> and \<^verbatim>\<open>done_\<close> is \<open>done_flag\<close>, the plain names being keywords.
  \<^verbatim>\<open>output_\<close> is null or owns the stream of a file, which is named by its path;
  \<^verbatim>\<open>callbacks_\<close> is null or points to the callbacks.
\<close>

record TraceLifecycleVisitor =
  folder :: string
  trace_prefix :: string
  trace_headers :: "(string \<times> string) list"
  output_stream :: "string option"
  delegates :: "EntryVisitor list"
  expected_trace :: "64 word"
  callbacks :: "TraceCallbacks option"
  done_flag :: bool

definition TraceLifecycleVisitor_new ::
  "string \<Rightarrow> string \<Rightarrow> TraceCallbacks option \<Rightarrow> (string \<times> string) list \<Rightarrow> 64 word
     \<Rightarrow> TraceLifecycleVisitor" where
  "TraceLifecycleVisitor_new folder0 trace_prefix0 callbacks0 headers trace_id =
     \<lparr>folder = folder0, trace_prefix = trace_prefix0, trace_headers = headers,
      output_stream = None, delegates = [], expected_trace = trace_id, callbacks = callbacks0,
      done_flag = False\<rparr>"

text \<open>
  Modelled from the spec: \<^verbatim>\<open>hasDelegate\<close> is defined in \<^verbatim>\<open>TraceLifecycleVisitor.h\<close>, which is
  not among the sources. A trace is active while the pipeline exists, and the file calls
  \<^verbatim>\<open>delegates_.back()\<close> only under \<^verbatim>\<open>hasDelegate()\<close>: it says that \<^verbatim>\<open>delegates_\<close> is not empty.
\<close>

definition hasDelegate :: "TraceLifecycleVisitor \<Rightarrow> bool" where
  "hasDelegate v \<longleftrightarrow> delegates v \<noteq> []"

text \<open>\<^verbatim>\<open>if (hasDelegate()) { delegates_.back()->visit(entry); }\<close>\<close>

definition visit_delegate :: "TraceLifecycleVisitor \<Rightarrow> Entry \<Rightarrow> Event list" where
  "visit_delegate v entry =
     (if hasDelegate v then [DelegateVisit (last (delegates v)) entry] else [])"

text \<open>
  \<^verbatim>\<open>writeHeaders(output, id)\<close>; \<open>out\<close> is what the stream holds before, the result what it
  holds after.
\<close>

fun writeHeaders_loop :: "(string \<times> string) list \<Rightarrow> string \<Rightarrow> string" where
  "writeHeaders_loop [] out = out"
| "writeHeaders_loop (header # rest) out =
     writeHeaders_loop rest (out @ fst header @ ''|'' @ snd header @ ''\<newline>'')"

definition writeHeaders :: "Env \<Rightarrow> TraceLifecycleVisitor \<Rightarrow> string \<Rightarrow> string \<Rightarrow> string" where
  "writeHeaders env v out id0 =
     (let out1 = out
            @ ''dt\<newline>''
            @ ''ver|'' @ show_int (kTraceFormatVersion env) @ ''\<newline>''
            @ ''id|'' @ id0 @ ''\<newline>''
            @ ''prec|'' @ show_int (kTimestampPrecision env) @ ''\<newline>'';
          out2 = writeHeaders_loop (trace_headers v) out1
      in out2 @ ''\<newline>'')"

text \<open>
  \<^verbatim>\<open>cleanupState\<close>: \<^verbatim>\<open>delegates_.clear()\<close> destroys the delegates there are, then
  \<^verbatim>\<open>output_ = nullptr\<close> destroys the stream, if there is one, which closes the file.
\<close>

definition cleanupState :: "TraceLifecycleVisitor \<Rightarrow> TraceLifecycleVisitor \<times> Event list" where
  "cleanupState v =
     (let evs1 = (if delegates v = [] then [] else [DestroyDelegates (delegates v)]);
          v1 = v\<lparr>delegates := []\<rparr>;
          evs2 = (case output_stream v1 of None \<Rightarrow> [] | Some file \<Rightarrow> [CloseFile file]);
          v2 = v1\<lparr>output_stream := None\<rparr>
      in (v2, evs1 @ evs2))"

definition onTraceAbort ::
  "TraceLifecycleVisitor \<Rightarrow> 64 word \<Rightarrow> AbortReason \<Rightarrow> TraceLifecycleVisitor \<times> Event list" where
  "onTraceAbort v trace_id reason =
     (let v1 = v\<lparr>done_flag := True\<rparr>;
          (v2, evs) = cleanupState v1
      in (v2, evs @ (if callbacks v2 \<noteq> None then [Callback_onTraceAbort trace_id reason] else [])))"

definition onTraceEnd ::
  "TraceLifecycleVisitor \<Rightarrow> 64 word \<Rightarrow> TraceLifecycleVisitor \<times> Event list" where
  "onTraceEnd v trace_id =
     (let v1 = v\<lparr>done_flag := True\<rparr>;
          (v2, evs) = cleanupState v1
      in (v2, evs @ (if callbacks v2 \<noteq> None then [Callback_onTraceEnd trace_id] else [])))"

definition abort :: "TraceLifecycleVisitor \<Rightarrow> AbortReason \<Rightarrow> TraceLifecycleVisitor \<times> Event list" where
  "abort v reason = onTraceAbort v (expected_trace v) reason"

text \<open>
  \<^verbatim>\<open>onTraceStart(trace_id, flags)\<close>. The result is the exception that leaves the function, if
  any, the visitor as the function leaves it, and the events up to there. The handler
  around \<^verbatim>\<open>ensureFolder\<close> catches a \<^verbatim>\<open>std::system_error\<close> and throws one again, whatever
  \<^verbatim>\<open>stat(folder_)\<close> says.
\<close>

definition onTraceStart ::
  "Env \<Rightarrow> TraceLifecycleVisitor \<Rightarrow> 64 word \<Rightarrow> 32 word
     \<Rightarrow> exn option \<times> TraceLifecycleVisitor \<times> Event list" where
  "onTraceStart env v trace_id flags =
     (if trace_id \<noteq> expected_trace v then (None, v, [])
      else if output_stream v \<noteq> None then
        (let (v1, evs) = abort v NEW_START in (None, v1, evs))
      else
        (case getTraceID trace_id of
           Inl ex \<Rightarrow> (Some ex, v, [])
         | Inr trace_id_string \<Rightarrow>
             (let trace_folder = folder v @ ''/'' @ sanitize trace_id_string
              in case ensureFolder env trace_folder of
                   (Some system_error, evs1) \<Rightarrow>
                     (if stat env (folder v) \<noteq> None then (Some system_error, v, evs1)
                      else (Some system_error, v, evs1))
                 | (Some ex, evs1) \<Rightarrow> (Some ex, v, evs1)
                 | (None, evs1) \<Rightarrow>
                     (case getTraceFilename env (trace_prefix v) trace_id_string of
                        Inl ex \<Rightarrow> (Some ex, v, evs1)
                      | Inr filename \<Rightarrow>
                          (let trace_file = trace_folder @ ''/'' @ sanitize filename;
                               v1 = v\<lparr>output_stream := Some trace_file\<rparr>;
                               evs2 = [OpenFile trace_file,
                                       StreamWrite trace_file (writeHeaders env v1 [] trace_id_string)];
                               v2 = v1\<lparr>delegates := delegates v1 @ [PrintEntryVisitor trace_file]\<rparr>;
                               v3 = v2\<lparr>delegates := delegates v2
                                      @ [DeltaEncodingVisitor (last (delegates v2))]\<rparr>;
                               v4 = v3\<lparr>delegates := delegates v3
                                      @ [TimestampTruncatingVisitor (last (delegates v3))
                                           (kTimestampPrecision env)]\<rparr>;
                               v5 = v4\<lparr>delegates := delegates v4
                                      @ [StackTraceInvertingVisitor (last (delegates v4))]\<rparr>;
                               evs3 = (if callbacks v5 \<noteq> None
                                       then [Callback_onTraceStart trace_id flags trace_file]
                                       else [])
                           in (None, v5\<lparr>done_flag := False\<rparr>, evs1 @ evs2 @ evs3))))))"

text \<open>
  \<^verbatim>\<open>visit(const StandardEntry&)\<close>: the switch on \<^verbatim>\<open>entry.type\<close>, with its shared case labels.
\<close>

definition visit_StandardEntry ::
  "Env \<Rightarrow> TraceLifecycleVisitor \<Rightarrow> StandardEntry
     \<Rightarrow> exn option \<times> TraceLifecycleVisitor \<times> Event list" where
  "visit_StandardEntry env v entry =
     (if entry_type entry = TRACE_END then
        (let trace_id = extra entry
         in if trace_id \<noteq> expected_trace v then (None, v, [])
            else (let evs1 = visit_delegate v (Standard entry);
                      (v1, evs2) = onTraceEnd v trace_id
                  in (None, v1, evs1 @ evs2)))
      else if entry_type entry = TRACE_TIMEOUT \<or> entry_type entry = TRACE_ABORT then
        (let trace_id = extra entry
         in if trace_id \<noteq> expected_trace v then (None, v, [])
            else (let reason = (if entry_type entry = TRACE_TIMEOUT then TIMEOUT
                                else CONTROLLER_INITIATED);
                      evs1 = visit_delegate v (Standard entry);
                      (v1, evs2) = onTraceAbort v trace_id reason
                  in (None, v1, evs1 @ evs2)))
      else if entry_type entry = TRACE_BACKWARDS \<or> entry_type entry = TRACE_START then
        (case onTraceStart env v (extra entry) (matchid entry) of
           (Some ex, v1, evs1) \<Rightarrow> (Some ex, v1, evs1)
         | (None, v1, evs1) \<Rightarrow> (None, v1, evs1 @ visit_delegate v1 (Standard entry)))
      else (None, v, visit_delegate v (Standard entry)))"

definition visit_FramesEntry ::
  "TraceLifecycleVisitor \<Rightarrow> FramesEntry \<Rightarrow> exn option \<times> TraceLifecycleVisitor \<times> Event list" where
  "visit_FramesEntry v entry = (None, v, visit_delegate v (Frames entry))"

definition visit_BytesEntry ::
  "TraceLifecycleVisitor \<Rightarrow> BytesEntry \<Rightarrow> exn option \<times> TraceLifecycleVisitor \<times> Event list" where
  "visit_BytesEntry v entry = (None, v, visit_delegate v (Bytes entry))"

text \<open>The visitor on an entry of any of the three shapes.\<close>

fun visit :: "Env \<Rightarrow> TraceLifecycleVisitor \<Rightarrow> Entry
     \<Rightarrow> exn option \<times> TraceLifecycleVisitor \<times> Event list" where
  "visit env v (Standard entry) = visit_StandardEntry env v entry"
| "visit env v (Frames entry) = visit_FramesEntry v entry"
| "visit env v (Bytes entry) = visit_BytesEntry v entry"


section \<open>A concrete trace\<close>

text \<open>
  The scenario of the spec: a visitor that expects trace 42, in a process 1234 on
  2017-8-9 at 13:05:00, where the folder of the trace does not exist yet and can be
  created; one configured header; callbacks registered.
\<close>

definition env42 :: Env where
  "env42 =
     \<lparr>getpid = 1234,
      localtime_r = Some \<lparr>tm_year = 117, tm_mon = 7, tm_mday = 9,
                           tm_hour = 13, tm_min = 5, tm_sec = 0\<rparr>,
      stat = (\<lambda>path. Some ENOENT),
      mkdirat = (\<lambda>path. None),
      kTraceFormatVersion = 3,
      kTimestampPrecision = 6\<rparr>"

definition idle42 :: TraceLifecycleVisitor where
  "idle42 =
     TraceLifecycleVisitor_new ''/data/traces'' ''trace'' (Some TraceCallbacks)
       [(''k'', ''v'')] 42"

definition file42 :: string where
  "file42 = ''/data/traces/AAAAAAAAAAq/trace-1234-2017-8-9T13-5-0-AAAAAAAAAAq.tmp''"

definition pipeline42 :: "EntryVisitor list" where
  "pipeline42 =
     [PrintEntryVisitor file42,
      DeltaEncodingVisitor (PrintEntryVisitor file42),
      TimestampTruncatingVisitor (DeltaEncodingVisitor (PrintEntryVisitor file42)) 6,
      StackTraceInvertingVisitor
        (TimestampTruncatingVisitor (DeltaEncodingVisitor (PrintEntryVisitor file42)) 6)]"

definition active42 :: TraceLifecycleVisitor where
  "active42 = idle42\<lparr>output_stream := Some file42, delegates := pipeline42\<rparr>"

definition entry42 :: "EntryType \<Rightarrow> 64 word \<Rightarrow> StandardEntry" where
  "entry42 ty trace_id =
     \<lparr>entry_id = 1, entry_type = ty, timestamp = 1000, tid = 1, callid = 0, matchid = 7,
      extra = trace_id\<rparr>"


section \<open>The allocator never returns a sentinel\<close>

lemma uint_step_bound:
  fixes s :: "16 word"
  shows "uint s < 65536"
  using uint_bounded[of s] by simp

lemma sint_ucast_step:
  fixes s :: "16 word"
  shows "sint (ucast s :: 32 word) = uint s"
proof -
  have u: "uint (ucast s :: 32 word) = uint s"
    by (rule uint_up_ucast) (simp add: is_up)
  have nn: "0 \<le> uint s" by simp
  have lo: "- 2147483648 \<le> uint s" using nn by linarith
  have hi: "uint s < 2147483648" using uint_step_bound[of s] by linarith
  have "signed_take_bit 31 (uint s) = uint s"
    by (rule signed_take_bit_int_eq_self) (use lo hi in simp_all)
  then show ?thesis by (simp add: sint_uint u)
qed

lemma sint_add_step:
  fixes c :: "32 word" and s :: "16 word"
  assumes "sint c + uint s < 2147483648"
  shows "sint (c + ucast s) = sint c + uint s"
proof -
  have nn: "0 \<le> uint s" by simp
  have "- 2147483648 \<le> sint c" using sint_ge[of c] by simp
  then have lo: "- 2147483648 \<le> sint c + uint s" using nn by linarith
  have "sint (c + ucast s) = signed_take_bit 31 (sint c + uint s)"
    by (simp add: sint_word_ariths sint_ucast_step)
  also have "\<dots> = sint c + uint s"
    by (rule signed_take_bit_int_eq_self) (use lo assms in simp_all)
  finally show ?thesis .
qed

lemma nextID_Some:
  assumes "nextID s c = Some y"
  shows "fst y \<noteq> -1 \<and> fst y \<noteq> 0 \<and> snd y = fst y + ucast s"
proof (rule nextID.raw_induct
    [where P = "\<lambda>s c y. fst y \<noteq> -1 \<and> fst y \<noteq> 0 \<and> snd y = fst y + ucast s", OF _ assms])
  fix f :: "16 word \<Rightarrow> 32 word \<Rightarrow> (32 word \<times> 32 word) option" and step e r
  assume IH: "\<And>s b y. f s b = Some y \<Longrightarrow> fst y \<noteq> -1 \<and> fst y \<noteq> 0 \<and> snd y = fst y + ucast s"
    and body: "(let id = e; e1 = e + ucast step
      in if id = -1 \<or> id = 0 then f step e1 else Some (id, e1)) = Some r"
  show "fst r \<noteq> -1 \<and> fst r \<noteq> 0 \<and> snd r = fst r + ucast step"
  proof (cases "e = -1 \<or> e = 0")
    case True
    with body have "f step (e + ucast step) = Some r" by (simp add: Let_def)
    then show ?thesis by (rule IH)
  next
    case False
    with body have "r = (e, e + ucast step)" by (simp add: Let_def)
    with False show ?thesis by simp
  qed
qed

lemma nextID_valid: "c \<noteq> -1 \<Longrightarrow> c \<noteq> 0 \<Longrightarrow> nextID s c = Some (c, c + ucast s)"
  by (subst nextID.simps) (simp add: Let_def)

lemma nextID_retry: "c = -1 \<or> c = 0 \<Longrightarrow> nextID s c = nextID s (c + ucast s)"
  by (subst nextID.simps) (simp add: Let_def)

text \<open>
  With a step of zero the loop never leaves a sentinel: the call does not return.
\<close>

lemma nextID_step_zero_Some:
  assumes "nextID s c = Some y"
  shows "s = 0 \<longrightarrow> c \<noteq> -1 \<and> c \<noteq> 0"
proof (rule nextID.raw_induct [where P = "\<lambda>s c y. s = 0 \<longrightarrow> c \<noteq> -1 \<and> c \<noteq> 0", OF _ assms])
  fix f :: "16 word \<Rightarrow> 32 word \<Rightarrow> (32 word \<times> 32 word) option" and step e r
  assume IH: "\<And>s b y. f s b = Some y \<Longrightarrow> s = 0 \<longrightarrow> b \<noteq> -1 \<and> b \<noteq> 0"
    and body: "(let id = e; e1 = e + ucast step
      in if id = -1 \<or> id = 0 then f step e1 else Some (id, e1)) = Some r"
  show "step = 0 \<longrightarrow> e \<noteq> -1 \<and> e \<noteq> 0"
  proof (cases "e = -1 \<or> e = 0")
    case True
    with body have "f step (e + ucast step) = Some r" by (simp add: Let_def)
    from IH[OF this] True show ?thesis by auto
  next
    case False
    then show ?thesis by simp
  qed
qed

lemma nextID_livelock:
  assumes "c = -1 \<or> c = 0"
  shows "nextID 0 c = None"
proof (cases "nextID 0 c")
  case None
  then show ?thesis .
next
  case (Some y)
  from nextID_step_zero_Some[OF this] assms show ?thesis by blast
qed

text \<open>
  With any other step the call returns after at most two retries. As long as three steps
  fit below \<open>2^31\<close> the counter does not wrap, and the id is at least the counter the call
  found and below the counter it leaves.
\<close>

lemma nextID_step_int:
  fixes c :: "32 word" and s :: "16 word"
  assumes s: "s \<noteq> 0" and room: "sint c + 3 * uint s < 2147483648"
  shows "\<exists>i. nextID s c = Some (i, i + ucast s) \<and> sint c \<le> sint i
           \<and> sint (i + ucast s) = sint i + uint s \<and> sint i + uint s \<le> sint c + 3 * uint s"
proof -
  have pos: "0 < uint s" using s uint_ge_0[of s] by (simp add: word_uint_eq_iff order_less_le)
  have a1: "sint (c + ucast s) = sint c + uint s"
    using room pos by (intro sint_add_step) simp
  have a2: "sint (c + ucast s + ucast s) = sint c + 2 * uint s"
    using room pos a1 sint_add_step[of "c + ucast s" s] by simp
  have a3: "sint (c + ucast s + ucast s + ucast s) = sint c + 3 * uint s"
    using room pos a2 sint_add_step[of "c + ucast s + ucast s" s] by simp
  show ?thesis
  proof (cases "c = -1 \<or> c = 0")
    case False
    then show ?thesis using a1 pos by (simp add: nextID_valid)
  next
    case c: True
    show ?thesis
    proof (cases "c + ucast s = -1 \<or> c + ucast s = 0")
      case False
      then have "nextID s c = Some (c + ucast s, c + ucast s + ucast s)"
        using c by (simp add: nextID_retry nextID_valid)
      then show ?thesis using a1 a2 pos by simp
    next
      case c1: True
      have ne: "c + ucast s + ucast s \<noteq> -1 \<and> c + ucast s + ucast s \<noteq> 0"
      proof -
        from c have "sint c = -1 \<or> sint c = 0" by auto
        moreover from c1 have "sint (c + ucast s) = -1 \<or> sint (c + ucast s) = 0" by auto
        ultimately have "sint c = -1 \<and> uint s = 1" using a1 pos by arith
        with a2 have "sint (c + ucast s + ucast s) = 1" by simp
        then show ?thesis by auto
      qed
      have "nextID s c = nextID s (c + ucast s + ucast s)"
        using c c1 by (simp add: nextID_retry)
      also have "\<dots> = Some (c + ucast s + ucast s, c + ucast s + ucast s + ucast s)"
        using ne by (simp add: nextID_valid)
      finally show ?thesis using a2 a3 pos by simp
    qed
  qed
qed

lemma writes_not_sentinel:
  "writes set_id pack calls L = Some (ids, L') \<Longrightarrow> \<forall>i\<in>set ids. i \<noteq> -1 \<and> i \<noteq> 0"
proof (induction calls arbitrary: L ids)
  case Nil
  then show ?case by simp
next
  case (Cons call calls)
  obtain entry st where call: "call = (entry, st)" by (cases call)
  from Cons.prems call obtain i c ids1 where
    n: "nextID st (entryID L) = Some (i, c)" and
    r: "writes set_id pack calls \<lparr>entryID = c, logger = logger L @ [pack (set_id i entry)]\<rparr>
          = Some (ids1, L')" and
    ids: "ids = i # ids1"
    by (auto simp: Logger_write_def split: option.splits prod.splits)
  from nextID_Some[OF n] have "i \<noteq> -1 \<and> i \<noteq> 0" by simp
  with Cons.IH[OF r] ids show ?case by simp
qed

lemma writes_increasing:
  assumes "\<forall>call\<in>set calls. snd call \<noteq> 0"
    and "sint (entryID L) + 3 * sum_list (map (\<lambda>call. uint (snd call)) calls) < 2147483648"
  shows "\<exists>ids L'. writes set_id pack calls L = Some (ids, L')
           \<and> (\<forall>i\<in>set ids. sint (entryID L) \<le> sint i)
           \<and> sorted_wrt (\<lambda>a b. sint a < sint b) ids"
  using assms
proof (induction calls arbitrary: L)
  case Nil
  then show ?case by simp
next
  case (Cons call calls)
  obtain entry st where call: "call = (entry, st)" by (cases call)
  have st: "st \<noteq> 0" using Cons.prems(1) call by simp
  then have pos: "0 < uint st" by (simp add: word_uint_eq_iff order_less_le)
  have nn: "0 \<le> sum_list (map (\<lambda>call. uint (snd call)) calls)"
    by (rule sum_list_nonneg) auto
  have room: "sint (entryID L) + 3 * uint st
                + 3 * sum_list (map (\<lambda>call. uint (snd call)) calls) < 2147483648"
    using Cons.prems(2) call by simp
  then have room1: "sint (entryID L) + 3 * uint st < 2147483648" using nn by linarith
  from nextID_step_int[OF st room1] obtain i where
    n: "nextID st (entryID L) = Some (i, i + ucast st)" and
    lo: "sint (entryID L) \<le> sint i" and
    c: "sint (i + ucast st) = sint i + uint st" and
    hi: "sint i + uint st \<le> sint (entryID L) + 3 * uint st"
    by blast
  define L1 where "L1 = \<lparr>entryID = i + ucast st, logger = logger L @ [pack (set_id i entry)]\<rparr>"
  have w: "Logger_write set_id pack entry st L = Some (i, L1)"
    by (simp add: Logger_write_def n L1_def)
  have "sint (entryID L1) + 3 * sum_list (map (\<lambda>call. uint (snd call)) calls) < 2147483648"
    using room hi c by (simp add: L1_def)
  moreover have "\<forall>call\<in>set calls. snd call \<noteq> 0" using Cons.prems(1) by simp
  ultimately obtain ids L' where
    r: "writes set_id pack calls L1 = Some (ids, L')" and
    ge: "\<forall>j\<in>set ids. sint (entryID L1) \<le> sint j" and
    so: "sorted_wrt (\<lambda>a b. sint a < sint b) ids"
    using Cons.IH[of L1] by blast
  have gt: "\<forall>j\<in>set ids. sint i < sint j"
    using ge c pos by (fastforce simp: L1_def)
  have "writes set_id pack (call # calls) L = Some (i # ids, L')"
    by (simp add: call w r)
  moreover have "\<forall>j\<in>set (i # ids). sint (entryID L) \<le> sint j"
    using lo gt by fastforce
  moreover have "sorted_wrt (\<lambda>a b. sint a < sint b) (i # ids)"
    using so gt by simp
  ultimately show ?case by blast
qed

text \<open>
  C5. With the counter at \<open>-2\<close>, three calls of \<open>nextID\<close> with step 1 return \<open>-2\<close>, \<open>1\<close>
  and \<open>2\<close>: the first call leaves the counter at \<open>-1\<close>, the second call fetches \<open>-1\<close> and
  \<open>0\<close>, retries both times and returns \<open>1\<close>, the third returns \<open>2\<close>. Neither sentinel is
  returned.
\<close>

theorem nextID_sentinel_skip:
  "nextID 1 (-2) = Some (-2, -1) \<and> nextID 1 (-1) = Some (1, 2) \<and> nextID 1 2 = Some (2, 3)
   \<and> map sint [-2, 1, 2 :: 32 word] = [-2, 1, 2]"
  by (simp add: nextID.simps)


text \<open>
  C1, as amended. Every id that a returning call of \<open>write\<close> hands out differs from the
  sentinels \<open>-1\<close> and \<open>0\<close>. When every step is positive and the 32-bit counter has room for
  three times the steps below \<open>2^31\<close> (so that no \<open>fetch_add\<close> wraps around), every call
  returns, and each id is strictly greater, as a signed 32-bit number, than all ids
  returned earlier on the same counter.
\<close>

theorem Logger_write_ids:
  "(\<forall>ids L'. writes set_id pack calls L = Some (ids, L') \<longrightarrow> (\<forall>i\<in>set ids. i \<noteq> -1 \<and> i \<noteq> 0))
   \<and> ((\<forall>call\<in>set calls. snd call \<noteq> 0)
        \<and> sint (entryID L) + 3 * sum_list (map (\<lambda>call. uint (snd call)) calls) < 2147483648
      \<longrightarrow> (\<exists>ids L'. writes set_id pack calls L = Some (ids, L')
             \<and> sorted_wrt (\<lambda>a b. sint a < sint b) ids))"
proof (intro conjI allI impI)
  fix ids L'
  assume "writes set_id pack calls L = Some (ids, L')"
  then show "\<forall>i\<in>set ids. i \<noteq> -1 \<and> i \<noteq> 0" by (rule writes_not_sentinel)
next
  assume "(\<forall>call\<in>set calls. snd call \<noteq> 0)
        \<and> sint (entryID L) + 3 * sum_list (map (\<lambda>call. uint (snd call)) calls) < 2147483648"
  then show "\<exists>ids L'. writes set_id pack calls L = Some (ids, L')
             \<and> sorted_wrt (\<lambda>a b. sint a < sint b) ids"
    using writes_increasing[of calls L set_id pack] by blast
qed

text \<open>
  Three calls with step 1 on a counter at \<open>-2\<close>, the entry being its id: the hypotheses
  hold, and the ids are \<open>-2\<close>, \<open>1\<close>, \<open>2\<close>.
\<close>

theorem Logger_write_ids_witness:
  "(1 :: 16 word) \<noteq> 0
   \<and> sint (-2 :: 32 word) + 3 * (uint (1 :: 16 word) + uint (1 :: 16 word) + uint (1 :: 16 word))
       < 2147483648
   \<and> map_option fst (writes (\<lambda>i e. i) (\<lambda>e. e) [(0, 1), (0, 1), (0, 1)]
        \<lparr>entryID = -2, logger = [] :: 32 word list\<rparr>) = Some [-2, 1, 2]
   \<and> sint (-2 :: 32 word) < sint (1 :: 32 word) \<and> sint (1 :: 32 word) < sint (2 :: 32 word)"
  using Logger_write_ids[of "\<lambda>i e. i" "\<lambda>e. e" "[(0, 1), (0, 1), (0, 1)]"
      "\<lparr>entryID = -2, logger = [] :: 32 word list\<rparr>"]
  by (simp add: Logger_write_def nextID.simps)

text \<open>
  C1 as stated fails in two ways. On a counter at \<open>2^31 - 1\<close> two calls with step 1 return
  \<open>2147483647\<close> and then \<open>-2147483648\<close>: the counter wraps. And a step of 0, which the
  \<^verbatim>\<open>uint16_t\<close> parameter admits, returns the same id twice.
\<close>

theorem Logger_write_ids_counterexample:
  "map_option fst (writes (\<lambda>i e. i) (\<lambda>e. e) [(0, 1), (0, 1)]
       \<lparr>entryID = 0x7FFFFFFF, logger = [] :: 32 word list\<rparr>) = Some [0x7FFFFFFF, 0x80000000]
   \<and> sint (0x7FFFFFFF :: 32 word) = 2147483647
   \<and> sint (0x80000000 :: 32 word) = - 2147483648
   \<and> map_option fst (writes (\<lambda>i e. i) (\<lambda>e. e) [(0, 0), (0, 0)]
       \<lparr>entryID = 5, logger = [] :: 32 word list\<rparr>) = Some [5, 5]"
  by (simp add: Logger_write_def nextID.simps)


section \<open>The trace id string\<close>

lemma sint_div_int64:
  assumes "0 \<le> sint t"
  shows "sint (div_int64 t 64) = sint t div 64"
proof -
  have hi: "sint t < 9223372036854775808" using sint_lt[of t] by simp
  have d: "sint t sdiv 64 = sint t div 64"
    using assms by (simp add: signed_divide_int_def sgn_if)
  have lo': "- 9223372036854775808 \<le> sint t div 64" using assms by linarith
  have hi': "sint t div 64 < 9223372036854775808" using assms hi by linarith
  have "sint (word_of_int (sint t div 64) :: 64 word) = signed_take_bit 63 (sint t div 64)"
    by (simp add: sint_sbintrunc')
  also have "\<dots> = sint t div 64"
    by (rule signed_take_bit_int_eq_self) (use lo' hi' in simp_all)
  finally show ?thesis by (simp add: div_int64_def d)
qed

lemma sint_mod_int64:
  assumes "0 \<le> sint t"
  shows "sint (mod_int64 t 64) = sint t mod 64"
proof -
  have d: "sint t smod 64 = sint t mod 64"
    using assms by (simp add: signed_modulo_int_def sgn_if)
  have lo': "- 9223372036854775808 \<le> sint t mod 64" by linarith
  have hi': "sint t mod 64 < 9223372036854775808" by linarith
  have "sint (word_of_int (sint t mod 64) :: 64 word) = signed_take_bit 63 (sint t mod 64)"
    by (simp add: sint_sbintrunc')
  also have "\<dots> = sint t mod 64"
    by (rule signed_take_bit_int_eq_self) (use lo' hi' in simp_all)
  finally show ?thesis by (simp add: mod_int64_def d)
qed

lemma getTraceID_loop_digs:
  "0 \<le> sint t \<Longrightarrow> n \<le> length r \<Longrightarrow>
   getTraceID_loop n t r = map (\<lambda>d. kBase64Alphabet ! nat d) (digs n (sint t)) @ drop n r"
proof (induction n arbitrary: t r)
  case 0
  then show ?case by simp
next
  case (Suc n)
  define x where "x = kBase64Alphabet ! nat (sint (mod_int64 t 64))"
  have nn: "0 \<le> sint (div_int64 t 64)"
    using Suc.prems(1) by (simp add: sint_div_int64 pos_imp_zdiv_nonneg_iff)
  have len: "n \<le> length (r[n := x])"
    using Suc.prems(2) by simp
  have dr: "drop n (r[n := x]) = x # drop (Suc n) r"
  proof -
    have "drop n (r[n := x]) = (r[n := x]) ! n # drop (Suc n) (r[n := x])"
      by (rule Cons_nth_drop_Suc[symmetric]) (use Suc.prems(2) in simp)
    then show ?thesis using Suc.prems(2) by simp
  qed
  have "getTraceID_loop (Suc n) t r = getTraceID_loop n (div_int64 t 64) (r[n := x])"
    by (simp add: x_def)
  also have "\<dots> = map (\<lambda>d. kBase64Alphabet ! nat d) (digs n (sint (div_int64 t 64)))
                     @ drop n (r[n := x])"
    by (rule Suc.IH[OF nn len])
  also have "\<dots> = map (\<lambda>d. kBase64Alphabet ! nat d) (digs (Suc n) (sint t)) @ drop (Suc n) r"
    unfolding dr
    by (simp add: x_def sint_div_int64[OF Suc.prems(1)] sint_mod_int64[OF Suc.prems(1)])
  finally show ?case .
qed

lemma length_digs: "length (digs n v) = n"
  by (induction n arbitrary: v) simp_all

lemma digs_range: "d \<in> set (digs n v) \<Longrightarrow> 0 \<le> d \<and> d < 64"
  by (induction n arbitrary: v) auto

lemma digs_nth: "k < n \<Longrightarrow> digs n v ! k = v div 64 ^ (n - 1 - k) mod 64"
proof (induction n arbitrary: v)
  case 0
  then show ?case by simp
next
  case (Suc n)
  show ?case
  proof (cases "k < n")
    case True
    then have "digs (Suc n) v ! k = (v div 64) div 64 ^ (n - 1 - k) mod 64"
      by (simp add: nth_append length_digs Suc.IH)
    also have "(v div 64) div 64 ^ (n - 1 - k) = v div (64 * 64 ^ (n - 1 - k))"
      by (simp add: zdiv_zmult2_eq)
    also have "64 * (64::int) ^ (n - 1 - k) = 64 ^ (Suc n - 1 - k)"
      using True by (simp add: Suc_diff_Suc flip: power_Suc)
    finally show ?thesis .
  next
    case False
    with Suc.prems have "k = n" by simp
    then show ?thesis by (simp add: nth_append length_digs)
  qed
qed

lemma foldl_digs:
  "foldl (\<lambda>acc d. acc * 64 + d) a (digs n v) = a * 64 ^ n + v mod 64 ^ n"
proof (induction n arbitrary: v)
  case 0
  then show ?case by simp
next
  case (Suc n)
  have m: "v mod (64 * 64 ^ n) = 64 * (v div 64 mod 64 ^ n) + v mod 64"
    by (rule zmod_zmult2_eq) simp
  have "foldl (\<lambda>acc d. acc * 64 + d) a (digs (Suc n) v)
          = (a * 64 ^ n + v div 64 mod 64 ^ n) * 64 + v mod 64"
    by (simp add: Suc.IH)
  also have "\<dots> = a * 64 ^ Suc n + v mod 64 ^ Suc n"
    using m by (simp add: algebra_simps)
  finally show ?case .
qed

lemma index_of_nth: "distinct xs \<Longrightarrow> i < length xs \<Longrightarrow> index_of (xs ! i) xs = i"
proof (induction xs arbitrary: i)
  case Nil
  then show ?case by simp
next
  case (Cons x xs)
  then show ?case by (cases i) auto
qed

lemma length_kBase64Alphabet: "length kBase64Alphabet = 64"
  by (simp add: kBase64Alphabet_def)

lemma distinct_kBase64Alphabet: "distinct kBase64Alphabet"
  by (simp add: kBase64Alphabet_def)

lemma NUL_notin_kBase64Alphabet: "CHR 0x00 \<notin> set kBase64Alphabet"
  by (simp add: kBase64Alphabet_def)

lemma base64_digit_nth:
  "0 \<le> d \<Longrightarrow> d < 64 \<Longrightarrow> base64_digit (kBase64Alphabet ! nat d) = d"
  by (simp add: base64_digit_def index_of_nth distinct_kBase64Alphabet length_kBase64Alphabet)

lemma foldl_decode_map:
  "\<forall>d\<in>set ds. 0 \<le> d \<and> d < 64 \<Longrightarrow>
   foldl (\<lambda>acc ch. acc * 64 + base64_digit ch) a (map (\<lambda>d. kBase64Alphabet ! nat d) ds)
     = foldl (\<lambda>acc d. acc * 64 + d) a ds"
  by (induction ds arbitrary: a) (simp_all add: base64_digit_nth)

lemma digit_in_kBase64Alphabet:
  assumes "0 \<le> d" and "d < 64"
  shows "kBase64Alphabet ! nat d \<in> set kBase64Alphabet"
proof -
  from assms have "nat d < 64" by linarith
  then have "nat d < length kBase64Alphabet" by (simp only: length_kBase64Alphabet)
  then show ?thesis by (rule nth_mem)
qed

lemma digs_chars_in_kBase64Alphabet:
  "set (map (\<lambda>d. kBase64Alphabet ! nat d) (digs n v)) \<subseteq> set kBase64Alphabet"
proof
  fix ch assume "ch \<in> set (map (\<lambda>d. kBase64Alphabet ! nat d) (digs n v))"
  then obtain d where d: "d \<in> set (digs n v)" and ch: "ch = kBase64Alphabet ! nat d"
    by auto
  from digs_range[OF d] show "ch \<in> set kBase64Alphabet"
    unfolding ch by (intro digit_in_kBase64Alphabet) simp_all
qed

text \<open>
  What \<open>getTraceID\<close> returns for a non-negative id: the eleven digits, as characters.
\<close>

lemma getTraceID_nonneg:
  assumes "0 \<le> sint x"
  shows "getTraceID x = Inr (map (\<lambda>d. kBase64Alphabet ! nat d) (digs 11 (sint x)))"
proof -
  let ?s = "map (\<lambda>d. kBase64Alphabet ! nat d) (digs 11 (sint x))"
  let ?r = "replicate 12 (CHR 0x00)"
  have len: "11 \<le> length ?r" by simp
  have dr: "drop 11 ?r = [CHR 0x00]" by (simp add: drop_replicate)
  have loop: "getTraceID_loop 11 x ?r = ?s @ [CHR 0x00]"
    using getTraceID_loop_digs[OF assms len] by (simp only: dr)
  have mem: "ch \<in> set ?s \<Longrightarrow> ch \<noteq> CHR 0x00" for ch
    using digs_chars_in_kBase64Alphabet[of 11 "sint x"] NUL_notin_kBase64Alphabet by blast
  have "takeWhile (\<lambda>ch. ch \<noteq> CHR 0x00) (?s @ [CHR 0x00])
          = ?s @ takeWhile (\<lambda>ch. ch \<noteq> CHR 0x00) [CHR 0x00]"
    by (rule takeWhile_append2) (rule mem)
  then have tw: "takeWhile (\<lambda>ch. ch \<noteq> CHR 0x00) (?s @ [CHR 0x00]) = ?s"
    by simp
  have "getTraceID x = Inr (takeWhile (\<lambda>ch. ch \<noteq> CHR 0x00) (getTraceID_loop 11 x ?r))"
    using assms by (simp add: getTraceID_def kTraceIdStringLen_def)
  then show ?thesis by (simp only: loop tw)
qed

text \<open>
  C2. For every non-negative \<^verbatim>\<open>int64_t\<close> \<open>x\<close> (all of them are below \<open>64^11 = 2^66\<close>, and the
  type holds no other value of that range) \<open>getTraceID\<close> returns a string of exactly 11
  characters of the alphabet; the character at place \<open>k\<close> is the base-64 digit of weight
  \<open>64^(10 - k)\<close>, so the most significant digit comes first and the leading zeros are
  \<open>A\<close>, the digit 0; and reading the string back as base-64 digits gives \<open>x\<close>.
\<close>

theorem getTraceID_roundtrip:
  assumes "0 \<le> sint x"
  shows "sint x < 64 ^ 11
    \<and> (\<exists>s. getTraceID x = Inr s \<and> length s = 11 \<and> set s \<subseteq> set kBase64Alphabet
          \<and> (\<forall>k<11. s ! k = kBase64Alphabet ! nat (sint x div 64 ^ (10 - k) mod 64))
          \<and> kBase64Alphabet ! 0 = CHR ''A''
          \<and> base64_decode s = sint x)"
proof -
  let ?s = "map (\<lambda>d. kBase64Alphabet ! nat d) (digs 11 (sint x))"
  have bound: "sint x < 64 ^ 11" using sint_lt[of x] by simp
  have r: "getTraceID x = Inr ?s" by (rule getTraceID_nonneg[OF assms])
  have len: "length ?s = 11" by (simp add: length_digs)
  have sub: "set ?s \<subseteq> set kBase64Alphabet"
    by (rule digs_chars_in_kBase64Alphabet)
  have nth: "\<forall>k<11. ?s ! k = kBase64Alphabet ! nat (sint x div 64 ^ (10 - k) mod 64)"
    by (simp add: length_digs digs_nth)
  have a: "kBase64Alphabet ! 0 = CHR ''A''" by (simp add: kBase64Alphabet_def)
  have "base64_decode ?s = foldl (\<lambda>acc d. acc * 64 + d) 0 (digs 11 (sint x))"
    unfolding base64_decode_def by (rule foldl_decode_map) (use digs_range in blast)
  also have "\<dots> = sint x mod 64 ^ 11" by (simp add: foldl_digs)
  also have "\<dots> = sint x" using assms bound by simp
  finally have dec: "base64_decode ?s = sint x" .
  from bound r len sub nth a dec show ?thesis by blast
qed

theorem getTraceID_roundtrip_witness:
  "0 \<le> sint (42 :: 64 word) \<and> getTraceID 42 = Inr ''AAAAAAAAAAq''
   \<and> base64_decode ''AAAAAAAAAAq'' = 42"
proof -
  have h: "0 \<le> sint (42 :: 64 word)" by simp
  have r: "getTraceID 42 = Inr ''AAAAAAAAAAq''"
    by (simp add: getTraceID_def kTraceIdStringLen_def kBase64Alphabet_def div_int64_def
        mod_int64_def signed_divide_int_def signed_modulo_int_def eval_nat_numeral)
  from getTraceID_roundtrip[OF h] r have "base64_decode ''AAAAAAAAAAq'' = sint (42 :: 64 word)"
    by auto
  with h r show ?thesis by simp
qed


section \<open>The lifecycle visitor\<close>

lemma cleanupState_eq:
  "cleanupState v =
     (v\<lparr>delegates := [], output_stream := None\<rparr>,
      (if delegates v = [] then [] else [DestroyDelegates (delegates v)])
        @ (case output_stream v of None \<Rightarrow> [] | Some file \<Rightarrow> [CloseFile file]))"
  by (simp add: cleanupState_def Let_def)

lemma onTraceAbort_eq:
  "onTraceAbort v trace_id reason =
     (v\<lparr>done_flag := True, delegates := [], output_stream := None\<rparr>,
      (if delegates v = [] then [] else [DestroyDelegates (delegates v)])
        @ (case output_stream v of None \<Rightarrow> [] | Some file \<Rightarrow> [CloseFile file])
        @ (if callbacks v = None then [] else [Callback_onTraceAbort trace_id reason]))"
  by (simp add: onTraceAbort_def cleanupState_eq)

lemma onTraceEnd_eq:
  "onTraceEnd v trace_id =
     (v\<lparr>done_flag := True, delegates := [], output_stream := None\<rparr>,
      (if delegates v = [] then [] else [DestroyDelegates (delegates v)])
        @ (case output_stream v of None \<Rightarrow> [] | Some file \<Rightarrow> [CloseFile file])
        @ (if callbacks v = None then [] else [Callback_onTraceEnd trace_id]))"
  by (simp add: onTraceEnd_def cleanupState_eq)

lemma onTraceStart_mismatch:
  "trace_id \<noteq> expected_trace v \<Longrightarrow> onTraceStart env v trace_id flags = (None, v, [])"
  by (simp add: onTraceStart_def)

lemma onTraceStart_active:
  "trace_id = expected_trace v \<Longrightarrow> output_stream v = Some file \<Longrightarrow>
   onTraceStart env v trace_id flags =
     (None, v\<lparr>done_flag := True, delegates := [], output_stream := None\<rparr>,
      (if delegates v = [] then [] else [DestroyDelegates (delegates v)])
        @ [CloseFile file]
        @ (if callbacks v = None then [] else [Callback_onTraceAbort (expected_trace v) NEW_START]))"
  by (simp add: onTraceStart_def abort_def onTraceAbort_eq)

lemma onTraceStart_negative:
  "trace_id = expected_trace v \<Longrightarrow> output_stream v = None \<Longrightarrow> sint trace_id < 0 \<Longrightarrow>
   onTraceStart env v trace_id flags = (Some invalid_argument, v, [])"
  by (simp add: onTraceStart_def getTraceID_def)

lemma writeHeaders_loop_eq:
  "writeHeaders_loop headers out
     = out @ concat (map (\<lambda>(key, val). key @ ''|'' @ val @ ''\<newline>'') headers)"
  by (induction headers arbitrary: out) (simp_all add: case_prod_beta)

lemma writeHeaders_eq:
  "writeHeaders env v out id0 =
     out @ ''dt\<newline>''
         @ ''ver|'' @ show_int (kTraceFormatVersion env) @ ''\<newline>''
         @ ''id|'' @ id0 @ ''\<newline>''
         @ ''prec|'' @ show_int (kTimestampPrecision env) @ ''\<newline>''
         @ concat (map (\<lambda>(key, val). key @ ''|'' @ val @ ''\<newline>'') (trace_headers v))
         @ ''\<newline>''"
  by (simp add: writeHeaders_def writeHeaders_loop_eq)

lemma getTraceID_Inr_length:
  assumes "getTraceID x = Inr s"
  shows "length s = 11"
proof -
  from assms have "0 \<le> sint x" by (auto simp: getTraceID_def split: if_splits)
  from getTraceID_nonneg[OF this] assms show ?thesis by (simp add: length_digs)
qed

lemma ensureFolder_events:
  "ensureFolder env path = (r, evs) \<Longrightarrow> evs = [] \<or> (r = None \<and> evs = [Mkdir path])"
  by (auto simp: ensureFolder_def split: option.splits if_splits)

lemma onTraceStart_idle:
  assumes "trace_id = expected_trace v" and "output_stream v = None"
    and "getTraceID trace_id = Inr s"
    and "ensureFolder env (folder v @ ''/'' @ sanitize s) = (None, evs1)"
    and "getTraceFilename env (trace_prefix v) s = Inr filename"
    and "file = folder v @ ''/'' @ sanitize s @ ''/'' @ sanitize filename"
  shows "onTraceStart env v trace_id flags =
     (None,
      v\<lparr>output_stream := Some file,
        delegates := delegates v @
          [PrintEntryVisitor file,
           DeltaEncodingVisitor (PrintEntryVisitor file),
           TimestampTruncatingVisitor (DeltaEncodingVisitor (PrintEntryVisitor file))
             (kTimestampPrecision env),
           StackTraceInvertingVisitor
             (TimestampTruncatingVisitor (DeltaEncodingVisitor (PrintEntryVisitor file))
                (kTimestampPrecision env))],
        done_flag := False\<rparr>,
      evs1 @ [OpenFile file, StreamWrite file (writeHeaders env v [] s)]
        @ (if callbacks v = None then [] else [Callback_onTraceStart trace_id flags file]))"
  using assms by (simp add: onTraceStart_def Let_def writeHeaders_def)

lemma onTraceStart_opens:
  assumes "onTraceStart env v trace_id flags = (r, v', evs)" and "OpenFile file \<in> set evs"
  shows "\<exists>s evs1 filename. trace_id = expected_trace v \<and> output_stream v = None
           \<and> getTraceID trace_id = Inr s
           \<and> ensureFolder env (folder v @ ''/'' @ sanitize s) = (None, evs1)
           \<and> getTraceFilename env (trace_prefix v) s = Inr filename
           \<and> file = folder v @ ''/'' @ sanitize s @ ''/'' @ sanitize filename"
proof -
  from assms have m: "trace_id = expected_trace v"
    by (cases "trace_id = expected_trace v") (auto simp: onTraceStart_mismatch)
  have idle: "output_stream v = None"
  proof (cases "output_stream v")
    case (Some f)
    from onTraceStart_active[OF m Some, of env flags] assms show ?thesis
      by (auto split: if_splits)
  qed simp
  obtain s where s: "getTraceID trace_id = Inr s"
    using assms m idle by (cases "getTraceID trace_id") (auto simp: onTraceStart_def)
  obtain ro evs1 where ef: "ensureFolder env (folder v @ ''/'' @ sanitize s) = (ro, evs1)"
    by (cases "ensureFolder env (folder v @ ''/'' @ sanitize s)")
  from ensureFolder_events[OF ef] have noopen: "OpenFile file \<notin> set evs1" by auto
  have ro: "ro = None"
  proof (cases ro)
    case (Some ex)
    with assms m idle s ef noopen show ?thesis
      by (cases ex) (auto simp: onTraceStart_def)
  qed simp
  obtain filename where fn: "getTraceFilename env (trace_prefix v) s = Inr filename"
    using assms m idle s ef ro noopen
    by (cases "getTraceFilename env (trace_prefix v) s") (auto simp: onTraceStart_def)
  from onTraceStart_idle[OF m idle s ef[unfolded ro] fn refl, of flags] assms noopen
  have "file = folder v @ ''/'' @ sanitize s @ ''/'' @ sanitize filename"
    by (auto split: if_splits)
  with m idle s ef ro fn show ?thesis by blast
qed

text \<open>
  What the code does with a lifecycle entry whose \<open>extra\<close> differs from \<open>expected_trace\<close>:
  a \<open>TRACE_END\<close>, \<open>TRACE_ABORT\<close> or \<open>TRACE_TIMEOUT\<close> leaves \<open>visit\<close> at once, and a
  \<open>TRACE_START\<close> at a visitor without a pipeline does nothing either. In all four cases
  nothing is raised and the visitor keeps every member.
\<close>

lemma visit_mismatched_ignored:
  assumes "extra e \<noteq> expected_trace v"
  shows "entry_type e \<in> {TRACE_END, TRACE_ABORT, TRACE_TIMEOUT}
           \<Longrightarrow> visit_StandardEntry env v e = (None, v, [])"
    and "entry_type e = TRACE_START \<Longrightarrow> delegates v = []
           \<Longrightarrow> visit_StandardEntry env v e = (None, v, [])"
    and "entry_type e = TRACE_START
           \<Longrightarrow> fst (visit_StandardEntry env v e) = None
               \<and> fst (snd (visit_StandardEntry env v e)) = v"
  using assms
  by (auto simp: visit_StandardEntry_def onTraceStart_mismatch visit_delegate_def hasDelegate_def)

text \<open>
  C3. A lifecycle entry whose \<open>extra\<close> differs from \<open>expected_trace\<close> is to be ignored:
  no file opened or closed, the visitor unchanged, no callback, nothing emitted. The
  code does not keep this for a \<open>TRACE_START\<close> that arrives while a trace is active. The
  test of the id sits inside \<open>onTraceStart\<close>, which returns, and \<open>visit\<close> then forwards the
  entry under \<open>hasDelegate()\<close>: while trace 42 is active, the \<open>TRACE_START\<close> of trace 1 is
  handed to the pipeline of trace 42, whose last stage prints to the file of that trace.
  The \<open>TRACE_END\<close> of trace 1 at the same visitor causes no event, as the claim says.
\<close>

theorem visit_mismatched_start_forwarded:
  "entry_type (entry42 TRACE_START 1) = TRACE_START
   \<and> extra (entry42 TRACE_START 1) \<noteq> expected_trace active42
   \<and> visit_StandardEntry env42 active42 (entry42 TRACE_START 1) =
       (None, active42,
        [DelegateVisit
           (StackTraceInvertingVisitor
              (TimestampTruncatingVisitor (DeltaEncodingVisitor (PrintEntryVisitor file42)) 6))
           (Standard (entry42 TRACE_START 1))])
   \<and> visit_StandardEntry env42 active42 (entry42 TRACE_END 1) = (None, active42, [])"
  by code_simp

text \<open>
  C4. A \<open>TRACE_START\<close> whose \<open>extra\<close> is \<open>expected_trace\<close>, arriving while \<open>output_stream\<close>
  holds a stream: the delegates are destroyed, the file is closed, then \<open>onTraceAbort\<close> is
  called with the expected trace and \<open>NEW_START\<close> (on the callbacks, if any are
  registered). Afterwards there is no stream and no delegate, \<open>done_flag\<close> is set, no file
  has been opened and the entry has been forwarded to nobody.
\<close>

theorem visit_double_start:
  assumes "entry_type e = TRACE_START" and "extra e = expected_trace v"
    and "output_stream v = Some file"
  shows "visit_StandardEntry env v e =
           (None, v\<lparr>done_flag := True, delegates := [], output_stream := None\<rparr>,
            (if delegates v = [] then [] else [DestroyDelegates (delegates v)])
              @ [CloseFile file]
              @ (if callbacks v = None then []
                 else [Callback_onTraceAbort (expected_trace v) NEW_START]))"
  using assms
  by (simp add: visit_StandardEntry_def onTraceStart_active visit_delegate_def hasDelegate_def)

theorem visit_double_start_witness:
  "entry_type (entry42 TRACE_START 42) = TRACE_START
   \<and> extra (entry42 TRACE_START 42) = expected_trace active42
   \<and> output_stream active42 = Some file42
   \<and> visit_StandardEntry env42 active42 (entry42 TRACE_START 42) =
       (None, idle42\<lparr>done_flag := True\<rparr>,
        [DestroyDelegates pipeline42, CloseFile file42, Callback_onTraceAbort 42 NEW_START])"
  using visit_double_start[of "entry42 TRACE_START 42" active42 file42 env42]
  by code_simp

text \<open>
  C6. \<open>getTraceID\<close> throws \<open>invalid_argument\<close> for every negative id. So a \<open>TRACE_START\<close>
  with a negative id that is the expected one, arriving at a visitor without a stream,
  leaves \<open>visit\<close> by that exception, with the visitor unchanged (still no stream, and the
  delegates it had, none when it was idle) and without any event: no folder is made, no
  file opened, no callback invoked.
\<close>

theorem visit_negative_start:
  assumes "sint trace_id < 0"
  shows "getTraceID trace_id = Inl invalid_argument
       \<and> (entry_type e = TRACE_START \<and> extra e = trace_id \<and> expected_trace v = trace_id
            \<and> output_stream v = None
          \<longrightarrow> visit_StandardEntry env v e = (Some invalid_argument, v, []))"
  using assms
  by (auto simp: visit_StandardEntry_def onTraceStart_negative getTraceID_def)

theorem visit_negative_start_witness:
  "sint (-1 :: 64 word) < 0
   \<and> getTraceID (-1) = Inl invalid_argument
   \<and> entry_type (entry42 TRACE_START (-1)) = TRACE_START
   \<and> extra (entry42 TRACE_START (-1)) = -1
   \<and> expected_trace (idle42\<lparr>expected_trace := -1\<rparr>) = -1
   \<and> output_stream (idle42\<lparr>expected_trace := -1\<rparr>) = None
   \<and> visit_StandardEntry env42 (idle42\<lparr>expected_trace := -1\<rparr>) (entry42 TRACE_START (-1)) =
       (Some invalid_argument, idle42\<lparr>expected_trace := -1\<rparr>, [])"
  using visit_negative_start[of "-1" "entry42 TRACE_START (-1)" "idle42\<lparr>expected_trace := -1\<rparr>" env42]
  by code_simp

text \<open>
  C7. A \<open>TRACE_END\<close>, \<open>TRACE_ABORT\<close> or \<open>TRACE_TIMEOUT\<close> entry for the expected trace, while
  the pipeline exists and the stream is open, causes these events in this order: the
  entry is handed to the last delegate, the delegates are destroyed, the file is closed,
  and then the callback is invoked (if callbacks are registered): \<open>onTraceEnd\<close>, or
  \<open>onTraceAbort\<close> with \<open>CONTROLLER_INITIATED\<close> for \<open>TRACE_ABORT\<close> and with \<open>TIMEOUT\<close> for
  \<open>TRACE_TIMEOUT\<close>.
\<close>

theorem visit_terminal_order:
  assumes "extra e = expected_trace v" and "delegates v \<noteq> []" and "output_stream v = Some file"
  shows "(entry_type e = TRACE_END \<longrightarrow>
            visit_StandardEntry env v e =
              (None, v\<lparr>done_flag := True, delegates := [], output_stream := None\<rparr>,
               [DelegateVisit (last (delegates v)) (Standard e),
                DestroyDelegates (delegates v),
                CloseFile file]
               @ (if callbacks v = None then [] else [Callback_onTraceEnd (extra e)])))
       \<and> (entry_type e = TRACE_ABORT \<longrightarrow>
            visit_StandardEntry env v e =
              (None, v\<lparr>done_flag := True, delegates := [], output_stream := None\<rparr>,
               [DelegateVisit (last (delegates v)) (Standard e),
                DestroyDelegates (delegates v),
                CloseFile file]
               @ (if callbacks v = None then []
                  else [Callback_onTraceAbort (extra e) CONTROLLER_INITIATED])))
       \<and> (entry_type e = TRACE_TIMEOUT \<longrightarrow>
            visit_StandardEntry env v e =
              (None, v\<lparr>done_flag := True, delegates := [], output_stream := None\<rparr>,
               [DelegateVisit (last (delegates v)) (Standard e),
                DestroyDelegates (delegates v),
                CloseFile file]
               @ (if callbacks v = None then []
                  else [Callback_onTraceAbort (extra e) TIMEOUT])))"
  using assms
  by (simp add: visit_StandardEntry_def onTraceEnd_eq onTraceAbort_eq visit_delegate_def
      hasDelegate_def)

theorem visit_terminal_order_witness:
  "extra (entry42 TRACE_END 42) = expected_trace active42
   \<and> delegates active42 \<noteq> []
   \<and> output_stream active42 = Some file42
   \<and> visit_StandardEntry env42 active42 (entry42 TRACE_END 42) =
       (None, idle42\<lparr>done_flag := True\<rparr>,
        [DelegateVisit
           (StackTraceInvertingVisitor
              (TimestampTruncatingVisitor (DeltaEncodingVisitor (PrintEntryVisitor file42)) 6))
           (Standard (entry42 TRACE_END 42)),
         DestroyDelegates pipeline42,
         CloseFile file42,
         Callback_onTraceEnd 42])
   \<and> visit_StandardEntry env42 active42 (entry42 TRACE_ABORT 42) =
       (None, idle42\<lparr>done_flag := True\<rparr>,
        [DelegateVisit
           (StackTraceInvertingVisitor
              (TimestampTruncatingVisitor (DeltaEncodingVisitor (PrintEntryVisitor file42)) 6))
           (Standard (entry42 TRACE_ABORT 42)),
         DestroyDelegates pipeline42,
         CloseFile file42,
         Callback_onTraceAbort 42 CONTROLLER_INITIATED])
   \<and> visit_StandardEntry env42 active42 (entry42 TRACE_TIMEOUT 42) =
       (None, idle42\<lparr>done_flag := True\<rparr>,
        [DelegateVisit
           (StackTraceInvertingVisitor
              (TimestampTruncatingVisitor (DeltaEncodingVisitor (PrintEntryVisitor file42)) 6))
           (Standard (entry42 TRACE_TIMEOUT 42)),
         DestroyDelegates pipeline42,
         CloseFile file42,
         Callback_onTraceAbort 42 TIMEOUT])"
  using visit_terminal_order[of "entry42 TRACE_END 42" active42 file42 env42]
    visit_terminal_order[of "entry42 TRACE_ABORT 42" active42 file42 env42]
    visit_terminal_order[of "entry42 TRACE_TIMEOUT 42" active42 file42 env42]
  by code_simp

text \<open>
  C8. \<open>writeHeaders\<close> appends to the stream the line \<open>dt\<close>, then \<open>ver|\<close> and the format
  version, \<open>id|\<close> and the id it is given, \<open>prec|\<close> and the timestamp precision, one line
  \<open>key|value\<close> for every configured header in order, and an empty line. Whenever
  \<open>onTraceStart\<close> opens a file, the id is the 11 characters of \<open>getTraceID\<close>, and that block
  is written to the new stream right after it is opened; nothing else is written to it
  (before the file is opened at most the folder is made, after the block only the
  callback follows).
\<close>

theorem writeHeaders_block:
  "writeHeaders env v out id0 =
     out @ ''dt\<newline>''
         @ ''ver|'' @ show_int (kTraceFormatVersion env) @ ''\<newline>''
         @ ''id|'' @ id0 @ ''\<newline>''
         @ ''prec|'' @ show_int (kTimestampPrecision env) @ ''\<newline>''
         @ concat (map (\<lambda>(key, val). key @ ''|'' @ val @ ''\<newline>'') (trace_headers v))
         @ ''\<newline>''
   \<and> (onTraceStart env v trace_id flags = (r, v', evs) \<and> OpenFile file \<in> set evs \<longrightarrow>
        (\<exists>s evs1. getTraceID trace_id = Inr s \<and> length s = 11
           \<and> (evs1 = [] \<or> evs1 = [Mkdir (folder v @ ''/'' @ sanitize s)])
           \<and> evs = evs1
               @ [OpenFile file,
                  StreamWrite file
                    (''dt\<newline>''
                     @ ''ver|'' @ show_int (kTraceFormatVersion env) @ ''\<newline>''
                     @ ''id|'' @ s @ ''\<newline>''
                     @ ''prec|'' @ show_int (kTimestampPrecision env) @ ''\<newline>''
                     @ concat (map (\<lambda>(key, val). key @ ''|'' @ val @ ''\<newline>'')
                                 (trace_headers v))
                     @ ''\<newline>'')]
               @ (if callbacks v = None then []
                  else [Callback_onTraceStart trace_id flags file])))"
proof (intro conjI impI)
  show "writeHeaders env v out id0 =
     out @ ''dt\<newline>''
         @ ''ver|'' @ show_int (kTraceFormatVersion env) @ ''\<newline>''
         @ ''id|'' @ id0 @ ''\<newline>''
         @ ''prec|'' @ show_int (kTimestampPrecision env) @ ''\<newline>''
         @ concat (map (\<lambda>(key, val). key @ ''|'' @ val @ ''\<newline>'') (trace_headers v))
         @ ''\<newline>''"
    by (rule writeHeaders_eq)
next
  assume a: "onTraceStart env v trace_id flags = (r, v', evs) \<and> OpenFile file \<in> set evs"
  then obtain s evs1 filename where
    m: "trace_id = expected_trace v" and idle: "output_stream v = None" and
    s: "getTraceID trace_id = Inr s" and
    ef: "ensureFolder env (folder v @ ''/'' @ sanitize s) = (None, evs1)" and
    fn: "getTraceFilename env (trace_prefix v) s = Inr filename" and
    fl: "file = folder v @ ''/'' @ sanitize s @ ''/'' @ sanitize filename"
    using onTraceStart_opens[of env v trace_id flags r v' evs "file"] by blast
  from onTraceStart_idle[OF m idle s ef fn fl, of flags] a
  have evs: "evs = evs1 @ [OpenFile file, StreamWrite file (writeHeaders env v [] s)]
        @ (if callbacks v = None then [] else [Callback_onTraceStart trace_id flags file])"
    by simp
  from ensureFolder_events[OF ef]
  have e1: "evs1 = [] \<or> evs1 = [Mkdir (folder v @ ''/'' @ sanitize s)]" by simp
  from s getTraceID_Inr_length[OF s] e1 evs show
    "\<exists>s evs1. getTraceID trace_id = Inr s \<and> length s = 11
           \<and> (evs1 = [] \<or> evs1 = [Mkdir (folder v @ ''/'' @ sanitize s)])
           \<and> evs = evs1
               @ [OpenFile file,
                  StreamWrite file
                    (''dt\<newline>''
                     @ ''ver|'' @ show_int (kTraceFormatVersion env) @ ''\<newline>''
                     @ ''id|'' @ s @ ''\<newline>''
                     @ ''prec|'' @ show_int (kTimestampPrecision env) @ ''\<newline>''
                     @ concat (map (\<lambda>(key, val). key @ ''|'' @ val @ ''\<newline>'')
                                 (trace_headers v))
                     @ ''\<newline>'')]
               @ (if callbacks v = None then []
                  else [Callback_onTraceStart trace_id flags file])"
    unfolding writeHeaders_eq by (intro exI[of _ s] exI[of _ evs1]) simp
qed

theorem writeHeaders_block_witness:
  "onTraceStart env42 idle42 42 7 =
     (None, active42,
      [Mkdir ''/data/traces/AAAAAAAAAAq'',
       OpenFile file42,
       StreamWrite file42
         ''dt\<newline>ver|3\<newline>id|AAAAAAAAAAq\<newline>prec|6\<newline>k|v\<newline>\<newline>'',
       Callback_onTraceStart 42 7 file42])
   \<and> getTraceID 42 = Inr ''AAAAAAAAAAq''
   \<and> length ''AAAAAAAAAAq'' = 11
   \<and> writeHeaders env42 idle42 [] ''AAAAAAAAAAq''
       = ''dt\<newline>ver|3\<newline>id|AAAAAAAAAAq\<newline>prec|6\<newline>k|v\<newline>\<newline>''"
proof -
  have r: "onTraceStart env42 idle42 42 7 =
     (None, active42,
      [Mkdir ''/data/traces/AAAAAAAAAAq'',
       OpenFile file42,
       StreamWrite file42
         ''dt\<newline>ver|3\<newline>id|AAAAAAAAAAq\<newline>prec|6\<newline>k|v\<newline>\<newline>'',
       Callback_onTraceStart 42 7 file42])"
    by code_simp
  have g: "getTraceID 42 = Inr ''AAAAAAAAAAq''"
    by code_simp
  have c: "show_int (kTraceFormatVersion env42) = ''3''"
    "show_int (kTimestampPrecision env42) = ''6''"
    "trace_headers idle42 = [(''k'', ''v'')]"
    by code_simp+
  from writeHeaders_block[of env42 idle42 "[]" "''AAAAAAAAAAq''" 42 7 None active42
      "[Mkdir ''/data/traces/AAAAAAAAAAq'',
        OpenFile file42,
        StreamWrite file42
          ''dt\<newline>ver|3\<newline>id|AAAAAAAAAAq\<newline>prec|6\<newline>k|v\<newline>\<newline>'',
        Callback_onTraceStart 42 7 file42]" file42]
  have "writeHeaders env42 idle42 [] ''AAAAAAAAAAq''
       = ''dt\<newline>ver|3\<newline>id|AAAAAAAAAAq\<newline>prec|6\<newline>k|v\<newline>\<newline>''"
    by (simp add: c)
  with r g show ?thesis by simp
qed

text \<open>
  C9, as amended. \<open>visit\<close> treats a \<open>TRACE_BACKWARDS\<close> entry as it treats the same entry with
  the tag \<open>TRACE_START\<close>: both run \<open>onTraceStart\<close> on \<open>extra\<close> and \<open>matchid\<close>, end with the same
  exception or none and the same visitor, cause the same events, and hand the entry to the
  same delegate afterwards when \<open>onTraceStart\<close> returned and a pipeline exists then. When
  the id is the expected one and a stream is open, that is a \<open>NEW_START\<close> abort, after
  which no pipeline is left: the entry is forwarded to nobody. When the id is the
  expected one and the visitor is idle, and the folder and the file name can be made, the
  file is opened, the header written, the four delegates constructed and the callback
  invoked, and then the entry is handed to the new pipeline.
\<close>

theorem visit_TRACE_BACKWARDS:
  assumes "entry_type e = TRACE_BACKWARDS"
  shows
    "(case onTraceStart env v (extra e) (matchid e) of
        (r, v', evs) \<Rightarrow>
          (let ds = (if r = None \<and> delegates v' \<noteq> [] then [last (delegates v')] else [])
           in visit_StandardEntry env v e
                = (r, v', evs @ map (\<lambda>d. DelegateVisit d (Standard e)) ds)
            \<and> visit_StandardEntry env v (e\<lparr>entry_type := TRACE_START\<rparr>)
                = (r, v', evs @ map (\<lambda>d. DelegateVisit d
                                      (Standard (e\<lparr>entry_type := TRACE_START\<rparr>))) ds)))
     \<and> (extra e = expected_trace v \<and> output_stream v = Some file \<longrightarrow>
          visit_StandardEntry env v e =
            (None, v\<lparr>done_flag := True, delegates := [], output_stream := None\<rparr>,
             (if delegates v = [] then [] else [DestroyDelegates (delegates v)])
               @ [CloseFile file]
               @ (if callbacks v = None then []
                  else [Callback_onTraceAbort (expected_trace v) NEW_START])))
     \<and> (extra e = expected_trace v \<and> output_stream v = None \<and> delegates v = []
          \<and> getTraceID (extra e) = Inr s
          \<and> ensureFolder env (folder v @ ''/'' @ sanitize s) = (None, evs1)
          \<and> getTraceFilename env (trace_prefix v) s = Inr filename
          \<and> file = folder v @ ''/'' @ sanitize s @ ''/'' @ sanitize filename \<longrightarrow>
          visit_StandardEntry env v e =
            (None,
             v\<lparr>output_stream := Some file,
               delegates :=
                 [PrintEntryVisitor file,
                  DeltaEncodingVisitor (PrintEntryVisitor file),
                  TimestampTruncatingVisitor (DeltaEncodingVisitor (PrintEntryVisitor file))
                    (kTimestampPrecision env),
                  StackTraceInvertingVisitor
                    (TimestampTruncatingVisitor (DeltaEncodingVisitor (PrintEntryVisitor file))
                       (kTimestampPrecision env))],
               done_flag := False\<rparr>,
             evs1 @ [OpenFile file, StreamWrite file (writeHeaders env v [] s)]
               @ (if callbacks v = None then []
                  else [Callback_onTraceStart (extra e) (matchid e) file])
               @ [DelegateVisit
                    (StackTraceInvertingVisitor
                       (TimestampTruncatingVisitor
                          (DeltaEncodingVisitor (PrintEntryVisitor file))
                          (kTimestampPrecision env)))
                    (Standard e)]))"
proof (intro conjI impI)
  show "case onTraceStart env v (extra e) (matchid e) of
        (r, v', evs) \<Rightarrow>
          (let ds = (if r = None \<and> delegates v' \<noteq> [] then [last (delegates v')] else [])
           in visit_StandardEntry env v e
                = (r, v', evs @ map (\<lambda>d. DelegateVisit d (Standard e)) ds)
            \<and> visit_StandardEntry env v (e\<lparr>entry_type := TRACE_START\<rparr>)
                = (r, v', evs @ map (\<lambda>d. DelegateVisit d
                                      (Standard (e\<lparr>entry_type := TRACE_START\<rparr>))) ds))"
    using assms
    by (auto simp: visit_StandardEntry_def visit_delegate_def hasDelegate_def Let_def
        split: prod.splits option.splits)
next
  assume "extra e = expected_trace v \<and> output_stream v = Some file"
  then show "visit_StandardEntry env v e =
            (None, v\<lparr>done_flag := True, delegates := [], output_stream := None\<rparr>,
             (if delegates v = [] then [] else [DestroyDelegates (delegates v)])
               @ [CloseFile file]
               @ (if callbacks v = None then []
                  else [Callback_onTraceAbort (expected_trace v) NEW_START]))"
    using assms
    by (simp add: visit_StandardEntry_def onTraceStart_active visit_delegate_def hasDelegate_def)
next
  assume a: "extra e = expected_trace v \<and> output_stream v = None \<and> delegates v = []
          \<and> getTraceID (extra e) = Inr s
          \<and> ensureFolder env (folder v @ ''/'' @ sanitize s) = (None, evs1)
          \<and> getTraceFilename env (trace_prefix v) s = Inr filename
          \<and> file = folder v @ ''/'' @ sanitize s @ ''/'' @ sanitize filename"
  then have "onTraceStart env v (extra e) (matchid e) =
     (None,
      v\<lparr>output_stream := Some file,
        delegates := delegates v @
          [PrintEntryVisitor file,
           DeltaEncodingVisitor (PrintEntryVisitor file),
           TimestampTruncatingVisitor (DeltaEncodingVisitor (PrintEntryVisitor file))
             (kTimestampPrecision env),
           StackTraceInvertingVisitor
             (TimestampTruncatingVisitor (DeltaEncodingVisitor (PrintEntryVisitor file))
                (kTimestampPrecision env))],
        done_flag := False\<rparr>,
      evs1 @ [OpenFile file, StreamWrite file (writeHeaders env v [] s)]
        @ (if callbacks v = None then []
           else [Callback_onTraceStart (extra e) (matchid e) file]))"
    using onTraceStart_idle[of "extra e" v s env evs1 filename "file" "matchid e"] by blast
  with a assms show "visit_StandardEntry env v e =
            (None,
             v\<lparr>output_stream := Some file,
               delegates :=
                 [PrintEntryVisitor file,
                  DeltaEncodingVisitor (PrintEntryVisitor file),
                  TimestampTruncatingVisitor (DeltaEncodingVisitor (PrintEntryVisitor file))
                    (kTimestampPrecision env),
                  StackTraceInvertingVisitor
                    (TimestampTruncatingVisitor (DeltaEncodingVisitor (PrintEntryVisitor file))
                       (kTimestampPrecision env))],
               done_flag := False\<rparr>,
             evs1 @ [OpenFile file, StreamWrite file (writeHeaders env v [] s)]
               @ (if callbacks v = None then []
                  else [Callback_onTraceStart (extra e) (matchid e) file])
               @ [DelegateVisit
                    (StackTraceInvertingVisitor
                       (TimestampTruncatingVisitor
                          (DeltaEncodingVisitor (PrintEntryVisitor file))
                          (kTimestampPrecision env)))
                    (Standard e)])"
    by (simp add: visit_StandardEntry_def visit_delegate_def hasDelegate_def)
qed

text \<open>
  A \<open>TRACE_BACKWARDS\<close> for trace 42 at the idle visitor opens the file exactly as the
  \<open>TRACE_START\<close> does.
\<close>

theorem visit_TRACE_BACKWARDS_witness:
  "entry_type (entry42 TRACE_BACKWARDS 42) = TRACE_BACKWARDS
   \<and> visit_StandardEntry env42 idle42 (entry42 TRACE_BACKWARDS 42) =
       (None, active42,
        [Mkdir ''/data/traces/AAAAAAAAAAq'',
         OpenFile file42,
         StreamWrite file42
           ''dt\<newline>ver|3\<newline>id|AAAAAAAAAAq\<newline>prec|6\<newline>k|v\<newline>\<newline>'',
         Callback_onTraceStart 42 7 file42,
         DelegateVisit
           (StackTraceInvertingVisitor
              (TimestampTruncatingVisitor (DeltaEncodingVisitor (PrintEntryVisitor file42)) 6))
           (Standard (entry42 TRACE_BACKWARDS 42))])
   \<and> visit_StandardEntry env42 idle42 (entry42 TRACE_START 42) =
       (None, active42,
        [Mkdir ''/data/traces/AAAAAAAAAAq'',
         OpenFile file42,
         StreamWrite file42
           ''dt\<newline>ver|3\<newline>id|AAAAAAAAAAq\<newline>prec|6\<newline>k|v\<newline>\<newline>'',
         Callback_onTraceStart 42 7 file42,
         DelegateVisit
           (StackTraceInvertingVisitor
              (TimestampTruncatingVisitor (DeltaEncodingVisitor (PrintEntryVisitor file42)) 6))
           (Standard (entry42 TRACE_START 42))])"
  using visit_TRACE_BACKWARDS[of "entry42 TRACE_BACKWARDS 42" env42 idle42 file42 "''AAAAAAAAAAq''"
      "[Mkdir ''/data/traces/AAAAAAAAAAq'']" "''trace-1234-2017-8-9T13-5-0-AAAAAAAAAAq.tmp''"]
  by code_simp

text \<open>
  C9 as stated fails in the active case: the \<open>TRACE_BACKWARDS\<close> for trace 42 aborts the
  active trace, and no event hands the entry to a delegate.
\<close>

theorem visit_TRACE_BACKWARDS_counterexample:
  "entry_type (entry42 TRACE_BACKWARDS 42) = TRACE_BACKWARDS
   \<and> extra (entry42 TRACE_BACKWARDS 42) = expected_trace active42
   \<and> output_stream active42 = Some file42
   \<and> visit_StandardEntry env42 active42 (entry42 TRACE_BACKWARDS 42) =
       (None, idle42\<lparr>done_flag := True\<rparr>,
        [DestroyDelegates pipeline42, CloseFile file42, Callback_onTraceAbort 42 NEW_START])"
  by code_simp

text \<open>
  C10. While \<open>delegates\<close> is empty, visiting a \<open>FramesEntry\<close>, a \<open>BytesEntry\<close>, or a
  \<open>StandardEntry\<close> whose type is none of those the switch of \<open>visit\<close> names (\<open>TRACE_END\<close>,
  \<open>TRACE_TIMEOUT\<close>, \<open>TRACE_ABORT\<close>, \<open>TRACE_BACKWARDS\<close>, \<open>TRACE_START\<close>) raises nothing, returns
  the visitor unchanged in every member and causes no event.
\<close>

theorem visit_idle_frame:
  assumes "delegates v = []"
  shows "visit_FramesEntry v fe = (None, v, [])
       \<and> visit_BytesEntry v be = (None, v, [])
       \<and> (entry_type e \<notin> {TRACE_END, TRACE_TIMEOUT, TRACE_ABORT, TRACE_BACKWARDS, TRACE_START}
          \<longrightarrow> visit_StandardEntry env v e = (None, v, []))"
  using assms
  by (simp add: visit_FramesEntry_def visit_BytesEntry_def visit_StandardEntry_def
      visit_delegate_def hasDelegate_def)

theorem visit_idle_frame_witness:
  "delegates idle42 = []
   \<and> visit_FramesEntry idle42
        \<lparr>entry_id = 2, entry_type = STACK_FRAME, timestamp = 1000, tid = 1, callid = 0,
          matchid = 0, extra = 0, frames = [10, 11]\<rparr> = (None, idle42, [])
   \<and> visit_BytesEntry idle42
        \<lparr>entry_id = 3, entry_type = USER_DEFINED 0, timestamp = 1000, tid = 1, callid = 0,
          matchid = 0, extra = 0, arg1 = 1, bytes = [1, 2, 3]\<rparr> = (None, idle42, [])
   \<and> entry_type (entry42 TRACE_ANNOTATION 42)
        \<notin> {TRACE_END, TRACE_TIMEOUT, TRACE_ABORT, TRACE_BACKWARDS, TRACE_START}
   \<and> visit_StandardEntry env42 idle42 (entry42 TRACE_ANNOTATION 42) = (None, idle42, [])"
  using visit_idle_frame[of idle42
      "\<lparr>entry_id = 2, entry_type = STACK_FRAME, timestamp = 1000, tid = 1, callid = 0,
        matchid = 0, extra = 0, frames = [10, 11]\<rparr>"
      "\<lparr>entry_id = 3, entry_type = USER_DEFINED 0, timestamp = 1000, tid = 1, callid = 0,
        matchid = 0, extra = 0, arg1 = 1, bytes = [1, 2, 3]\<rparr>"
      "entry42 TRACE_ANNOTATION 42" env42]
  by code_simp

end
